theory Spec2Isabelle
  imports Complex_Main "HOL-Library.Log_Nat" "HOL-Library.AList" "HOL-Library.Multiset"
begin

section \<open>Go values used by the load tester\<close>

subsection \<open>Run-time panics\<close>

text \<open>
  A Go run-time panic aborts the program. Every operation of the source that can panic
  returns a sum: \<open>Inl\<close> the panic, \<open>Inr\<close> the value.
\<close>

datatype panic =
    DivideByZero | IndexOutOfRange | MakeChanSizeOutOfRange
  | IntnInvalidArgument | SendOnClosedChannel

subsection \<open>Integers\<close>

text \<open>
  Go's \<open>int\<close>, \<open>int64\<close> and \<open>time.Duration\<close> are 64-bit. They are modelled by
  unbounded integers: the counters of this program count elements of slices held in memory
  and goroutines, and the durations are sums of measured request times in nanoseconds, all
  far inside the 64-bit range. Integer division truncates towards zero, the remainder takes
  the sign of the dividend; division by zero panics, which the callers below test for.
\<close>

definition go_div :: "int \<Rightarrow> int \<Rightarrow> int" where
  "go_div a b = sgn a * sgn b * (\<bar>a\<bar> div \<bar>b\<bar>)"

definition go_mod :: "int \<Rightarrow> int \<Rightarrow> int" where
  "go_mod a b = a - b * go_div a b"

text \<open>Indexing a slice panics outside \<open>0 \<le> i < len\<close>.\<close>

definition index :: "'a list \<Rightarrow> int \<Rightarrow> panic + 'a" where
  "index xs i = (if 0 \<le> i \<and> i < int (length xs) then Inr (xs ! nat i) else Inl IndexOutOfRange)"

subsection \<open>float64\<close>

text \<open>
  IEEE 754 binary64 with round-to-nearest, ties-to-even: a finite value is the rational it
  denotes, and every arithmetic operation rounds the exact result to the nearest value with
  a 53-bit significand (gradual underflow below \<open>2\<^sup>-\<^sup>1\<^sup>0\<^sup>2\<^sup>2\<close>, overflow to infinity at
  \<open>2\<^sup>1\<^sup>0\<^sup>2\<^sup>4\<close>). The sign of zero is not represented: no comparison of the program
  observes it, and every zero divisor of the program is a converted integer \<open>0\<close>.
\<close>

datatype float64 = Fin rat | PInf | NInf | NaN

definition pow2 :: "int \<Rightarrow> rat" where
  "pow2 e = (if 0 \<le> e then 2 ^ nat e else 1 / 2 ^ nat (- e))"

text \<open>\<open>ilog2 q\<close> is the exponent \<open>e\<close> with \<open>2\<^sup>e \<le> q < 2\<^sup>e\<^sup>+\<^sup>1\<close>, for \<open>q > 0\<close>.\<close>

definition ilog2 :: "rat \<Rightarrow> int" where
  "ilog2 q = (if 1 \<le> q then bitlen \<lfloor>q\<rfloor> - 1 else - bitlen (\<lceil>1 / q\<rceil> - 1))"

text \<open>Rounding a rational to the nearest integer, ties to the even one.\<close>

definition rne :: "rat \<Rightarrow> int" where
  "rne q = (let f = \<lfloor>q\<rfloor>; d = q - of_int f in
     if d < 1 / 2 then f else if 1 / 2 < d then f + 1 else if even f then f else f + 1)"

text \<open>
  Rounding to binary64: with \<open>e\<close> the exponent of \<open>\<bar>x\<bar>\<close> (at least \<open>-1022\<close>, below which
  the spacing stays \<open>2\<^sup>-\<^sup>1\<^sup>0\<^sup>7\<^sup>4\<close>), the significand \<open>m\<close> is \<open>\<bar>x\<bar>\<close> in units of
  \<open>2\<^sup>e\<^sup>-\<^sup>5\<^sup>2\<close>, rounded. The result overflows when \<open>m * 2\<^sup>e\<^sup>-\<^sup>5\<^sup>2\<close> reaches \<open>2\<^sup>1\<^sup>0\<^sup>2\<^sup>4\<close>.
\<close>

definition f64_round :: "rat \<Rightarrow> float64" where
  "f64_round x = (if x = 0 then Fin 0 else
     let a = \<bar>x\<bar>; e = max (ilog2 a) (- 1022); u = pow2 (e - 52);
         m = rne (a / u)
     in if 1023 < e \<or> (e = 1023 \<and> m = 2 ^ 53) then (if 0 < x then PInf else NInf)
        else Fin (if 0 < x then of_int m * u else - (of_int m * u)))"

text \<open>The conversion \<open>float64(i)\<close> of an integer.\<close>

definition f64_of_int :: "int \<Rightarrow> float64" where
  "f64_of_int i = f64_round (of_int i)"

fun fneg :: "float64 \<Rightarrow> float64" where
  "fneg (Fin x) = Fin (- x)"
| "fneg PInf = NInf"
| "fneg NInf = PInf"
| "fneg NaN = NaN"

fun fadd :: "float64 \<Rightarrow> float64 \<Rightarrow> float64" where
  "fadd (Fin x) (Fin y) = f64_round (x + y)"
| "fadd NaN b = NaN"
| "fadd a NaN = NaN"
| "fadd PInf NInf = NaN"
| "fadd NInf PInf = NaN"
| "fadd PInf b = PInf"
| "fadd NInf b = NInf"
| "fadd (Fin x) b = b"

definition fsub :: "float64 \<Rightarrow> float64 \<Rightarrow> float64" where
  "fsub a b = fadd a (fneg b)"

text \<open>The sign of a float64 as \<open>-1\<close>, \<open>0\<close> or \<open>1\<close>; \<open>NaN\<close> has none.\<close>

fun fsign :: "float64 \<Rightarrow> int" where
  "fsign (Fin x) = (if x < 0 then - 1 else if x = 0 then 0 else 1)"
| "fsign PInf = 1"
| "fsign NInf = - 1"
| "fsign NaN = 0"

definition finf :: "int \<Rightarrow> float64" where
  "finf s = (if s = 0 then NaN else if 0 < s then PInf else NInf)"

fun fmul :: "float64 \<Rightarrow> float64 \<Rightarrow> float64" where
  "fmul (Fin x) (Fin y) = f64_round (x * y)"
| "fmul NaN b = NaN"
| "fmul a NaN = NaN"
| "fmul a b = finf (fsign a * fsign b)"

fun fdiv :: "float64 \<Rightarrow> float64 \<Rightarrow> float64" where
  "fdiv (Fin x) (Fin y) = (if y = 0 then finf (fsign (Fin x)) else f64_round (x / y))"
| "fdiv NaN b = NaN"
| "fdiv a NaN = NaN"
| "fdiv (Fin x) b = Fin 0"
| "fdiv a (Fin y) = finf (fsign a * (if y < 0 then - 1 else 1))"
| "fdiv a b = NaN"

text \<open>The comparison \<open>a > b\<close>: false whenever an operand is \<open>NaN\<close>.\<close>

fun fgt :: "float64 \<Rightarrow> float64 \<Rightarrow> bool" where
  "fgt (Fin x) (Fin y) = (y < x)"
| "fgt NaN b = False"
| "fgt a NaN = False"
| "fgt PInf b = (b \<noteq> PInf)"
| "fgt a NInf = (a \<noteq> NInf)"
| "fgt a b = False"

text \<open>
  The conversion \<open>int(x)\<close> discards the fraction. Outside the 64-bit range, and for
  infinities and \<open>NaN\<close>, Go leaves the result to the implementation; amd64 yields the
  smallest integer.
\<close>

definition f64_to_int :: "float64 \<Rightarrow> int" where
  "f64_to_int x = (case x of
     Fin q \<Rightarrow> (let t = (if 0 \<le> q then \<lfloor>q\<rfloor> else \<lceil>q\<rceil>) in
               if - (2 ^ 63) \<le> t \<and> t < 2 ^ 63 then t else - (2 ^ 63))
   | _ \<Rightarrow> - (2 ^ 63))"

subsection \<open>time.Duration\<close>

type_synonym Duration = int

definition Millisecond :: Duration where
  "Millisecond = 1000000"

definition Second :: Duration where
  "Second = 1000000000"

definition Hour :: Duration where
  "Hour = 3600000000000"

text \<open>\<open>Duration.Seconds\<close> of the standard library: whole seconds plus the remainder over \<open>1e9\<close>.\<close>

definition Seconds :: "Duration \<Rightarrow> float64" where
  "Seconds d = (let sec = go_div d Second; nsec = go_mod d Second in
     fadd (f64_of_int sec) (fdiv (f64_of_int nsec) (Fin 1000000000)))"

section \<open>Data model\<close>

text \<open>
  \<open>runner.Task\<close> and \<open>runner.Result\<close>. The \<open>error\<close> interface value of a Result is
  \<open>None\<close> for \<open>nil\<close> and the error's message otherwise; times are nanoseconds.
\<close>

record Task =
  T_URL :: string
  T_Method :: string
  Headers :: "(string \<times> string) list"
  Body :: "nat list"

record Result =
  URL :: string
  Method :: string
  StatusCode :: int
  Duration :: Duration
  Error :: "string option"
  ThreadID :: int
  StartTime :: int
  EndTime :: int

text \<open>\<open>stats.EndpointStatistics\<close> and \<open>stats.Statistics\<close>; Go maps are association lists.\<close>

record EndpointStatistics =
  ES_URL :: string
  ES_Method :: string
  TotalRequests :: int
  SuccessRequests :: int
  FailedRequests :: int
  TotalDuration :: Duration
  AverageDuration :: Duration
  MinDuration :: Duration
  MaxDuration :: Duration
  MedianDuration :: Duration
  Percentile95 :: Duration
  Percentile99 :: Duration
  RequestsPerSecond :: float64
  StatusCodes :: "(int \<times> int) list"
  SuccessCodes :: int
  ClientErrors :: int
  ServerErrors :: int
  P50Latency :: Duration
  P95Latency :: Duration
  P99Latency :: Duration

record Statistics =
  EndpointStats :: "(string \<times> EndpointStatistics) list"
  S_TotalRequests :: int
  S_TotalDuration :: Duration

section \<open>Statistics aggregator\<close>

text \<open>The map key of a Result: \<open>fmt.Sprintf("%s %s", result.Method, result.URL)\<close>.\<close>

definition endpoint_key :: "Result \<Rightarrow> string" where
  "endpoint_key result = Method result @ '' '' @ URL result"

text \<open>The entry that \<open>Calculate\<close> creates for a key it has not seen.\<close>

definition new_endpoint :: "Result \<Rightarrow> EndpointStatistics" where
  "new_endpoint result = \<lparr>
     ES_URL = URL result, ES_Method = Method result,
     TotalRequests = 0, SuccessRequests = 0, FailedRequests = 0,
     TotalDuration = 0, AverageDuration = 0, MinDuration = Hour, MaxDuration = 0,
     MedianDuration = 0, Percentile95 = 0, Percentile99 = 0,
     RequestsPerSecond = Fin 0, StatusCodes = [],
     SuccessCodes = 0, ClientErrors = 0, ServerErrors = 0,
     P50Latency = 0, P95Latency = 0, P99Latency = 0 \<rparr>"

text \<open>\<open>endpointStat.StatusCodes[code]++\<close> and the \<open>switch\<close> on the status class.\<close>

definition count_status :: "int \<Rightarrow> EndpointStatistics \<Rightarrow> EndpointStatistics" where
  "count_status code e =
     (let n = (case map_of (StatusCodes e) code of None \<Rightarrow> 0 | Some c \<Rightarrow> c);
          e1 = e\<lparr>StatusCodes := AList.update code (n + 1) (StatusCodes e)\<rparr>
      in if 200 \<le> code \<and> code < 300 then e1\<lparr>SuccessCodes := SuccessCodes e1 + 1\<rparr>
         else if 400 \<le> code \<and> code < 500 then e1\<lparr>ClientErrors := ClientErrors e1 + 1\<rparr>
         else if 500 \<le> code then e1\<lparr>ServerErrors := ServerErrors e1 + 1\<rparr>
         else e1)"

text \<open>The body of the first loop of \<open>Calculate\<close>, for one Result.\<close>

definition Calculate_step :: "Statistics \<Rightarrow> Result \<Rightarrow> Statistics" where
  "Calculate_step stats result =
     (let key = endpoint_key result;
          e0 = (case map_of (EndpointStats stats) key of
                  None \<Rightarrow> new_endpoint result | Some e \<Rightarrow> e);
          e1 = e0\<lparr>TotalRequests := TotalRequests e0 + 1\<rparr>;
          s1 = stats\<lparr>S_TotalRequests := S_TotalRequests stats + 1\<rparr>
      in if Error result \<noteq> None then
           s1\<lparr>EndpointStats :=
                AList.update key (e1\<lparr>FailedRequests := FailedRequests e1 + 1\<rparr>) (EndpointStats s1)\<rparr>
         else
           let e2 = e1\<lparr>SuccessRequests := SuccessRequests e1 + 1,
                       TotalDuration := TotalDuration e1 + Duration result\<rparr>;
               e3 = (if Duration result < MinDuration e2
                     then e2\<lparr>MinDuration := Duration result\<rparr> else e2);
               e4 = (if MaxDuration e3 < Duration result
                     then e3\<lparr>MaxDuration := Duration result\<rparr> else e3);
               e5 = count_status (StatusCode result) e4
           in s1\<lparr>S_TotalDuration := S_TotalDuration s1 + Duration result,
                  EndpointStats := AList.update key e5 (EndpointStats s1)\<rparr>)"

definition empty_statistics :: Statistics where
  "empty_statistics = \<lparr>EndpointStats = [], S_TotalRequests = 0, S_TotalDuration = 0\<rparr>"

definition Calculate_pass1 :: "Result list \<Rightarrow> Statistics" where
  "Calculate_pass1 results = foldl Calculate_step empty_statistics results"

text \<open>
  The local slice \<open>durations\<close> of \<open>calculateEndpointStats\<close>: the durations of the Results
  that pass the test \<open>result.URL == stat.URL && result.Error == nil\<close>.
\<close>

definition endpoint_durations :: "EndpointStatistics \<Rightarrow> Result list \<Rightarrow> Duration list" where
  "endpoint_durations stat results =
     map Duration (filter (\<lambda>result. URL result = ES_URL stat \<and> Error result = None) results)"

text \<open>The untyped constants \<open>0.95\<close> and \<open>0.99\<close>, converted to float64.\<close>

definition c095 :: float64 where
  "c095 = f64_round (95 / 100)"

definition c099 :: float64 where
  "c099 = f64_round (99 / 100)"

definition calculatePercentiles :: "EndpointStatistics \<Rightarrow> Duration list \<Rightarrow> panic + EndpointStatistics" where
  "calculatePercentiles s durations0 =
     (let durations = sort durations0; l = int (length durations) in
      case index durations (go_div (l * 50) 100) of Inl p \<Rightarrow> Inl p | Inr p50 \<Rightarrow>
      case index durations (go_div (l * 95) 100) of Inl p \<Rightarrow> Inl p | Inr p95 \<Rightarrow>
      case index durations (go_div (l * 99) 100) of Inl p \<Rightarrow> Inl p | Inr p99 \<Rightarrow>
        Inr (s\<lparr>P50Latency := p50, P95Latency := p95, P99Latency := p99\<rparr>))"

definition calculateEndpointStats :: "EndpointStatistics \<Rightarrow> Result list \<Rightarrow> panic + EndpointStatistics" where
  "calculateEndpointStats stat results =
     (let durations0 = endpoint_durations stat results in
      if 0 < length durations0 then
        let durations = sort durations0; l = int (length durations) in
        if SuccessRequests stat = 0 then Inl DivideByZero
        else
          let s1 = stat\<lparr>AverageDuration := go_div (TotalDuration stat) (SuccessRequests stat)\<rparr> in
          case index durations (go_div l 2) of Inl p \<Rightarrow> Inl p | Inr med \<Rightarrow>
          case index durations (f64_to_int (fmul (f64_of_int l) c095)) of Inl p \<Rightarrow> Inl p | Inr p95 \<Rightarrow>
          case index durations (f64_to_int (fmul (f64_of_int l) c099)) of Inl p \<Rightarrow> Inl p | Inr p99 \<Rightarrow>
            calculatePercentiles
              (s1\<lparr>MedianDuration := med, Percentile95 := p95, Percentile99 := p99,
                  RequestsPerSecond :=
                    fdiv (f64_of_int (SuccessRequests s1)) (Seconds (TotalDuration s1))\<rparr>)
              durations
      else Inr stat)"

text \<open>
  The second loop of \<open>Calculate\<close> visits every entry of the map and updates it in place.
  Go visits the entries in an unspecified order; each visit reads and writes its own entry
  only, so the order of the association list stands for any of them.
\<close>

fun Calculate_pass2 ::
  "(string \<times> EndpointStatistics) list \<Rightarrow> Result list \<Rightarrow> panic + (string \<times> EndpointStatistics) list" where
  "Calculate_pass2 [] results = Inr []"
| "Calculate_pass2 ((key, stat) # rest) results =
     (case calculateEndpointStats stat results of
        Inl p \<Rightarrow> Inl p
      | Inr stat' \<Rightarrow>
          (case Calculate_pass2 rest results of
             Inl p \<Rightarrow> Inl p
           | Inr rest' \<Rightarrow> Inr ((key, stat') # rest')))"

definition Calculate :: "Result list \<Rightarrow> panic + Statistics" where
  "Calculate results =
     (let stats = Calculate_pass1 results in
      case Calculate_pass2 (EndpointStats stats) results of
        Inl p \<Rightarrow> Inl p
      | Inr m \<Rightarrow> Inr (stats\<lparr>EndpointStats := m\<rparr>))"

text \<open>What the first pass leaves in an entry that has seen no successful Result.\<close>

definition untouched :: "EndpointStatistics \<Rightarrow> bool" where
  "untouched e = (SuccessRequests e = 0 \<and> TotalDuration e = 0 \<and> AverageDuration e = 0 \<and>
     MinDuration e = Hour \<and> MaxDuration e = 0 \<and> MedianDuration e = 0 \<and>
     Percentile95 e = 0 \<and> Percentile99 e = 0 \<and> RequestsPerSecond e = Fin 0 \<and>
     P50Latency e = 0 \<and> P95Latency e = 0 \<and> P99Latency e = 0)"

subsection \<open>Sample batches\<close>

text \<open>A Result of a request answered with status 200, and one of a request that timed out.\<close>

definition success :: "string \<Rightarrow> string \<Rightarrow> Duration \<Rightarrow> Result" where
  "success m u d = \<lparr>URL = u, Method = m, StatusCode = 200, Duration = d, Error = None,
     ThreadID = 0, StartTime = 0, EndTime = 0\<rparr>"

definition failure :: "string \<Rightarrow> string \<Rightarrow> Result" where
  "failure m u = \<lparr>URL = u, Method = m, StatusCode = 0, Duration = 0,
     Error = Some ''timeout'', ThreadID = 0, StartTime = 0, EndTime = 0\<rparr>"

text \<open>The durations 10 ms, 20 ms, ..., 1000 ms, and a batch of 100 successes that took them.\<close>

definition samples :: "Duration list" where
  "samples = map (\<lambda>i. int i * 10 * Millisecond) [1..<101]"

definition sample_results :: "Result list" where
  "sample_results = map (success ''GET'' ''/a'') samples"

text \<open>Two endpoints that share a URL and differ in the method.\<close>

definition shared_url_results :: "Result list" where
  "shared_url_results =
     [success ''GET'' ''/a'' (10 * Millisecond), success ''POST'' ''/a'' (20 * Millisecond)]"

definition failing_get_results :: "Result list" where
  "failing_get_results = [failure ''GET'' ''/a'', success ''POST'' ''/a'' (20 * Millisecond)]"

definition three_results :: "Result list" where
  "three_results =
     [success ''GET'' ''/a'' (10 * Millisecond), failure ''GET'' ''/a'',
      success ''POST'' ''/b'' (20 * Millisecond)]"

section \<open>Runner\<close>

text \<open>\<open>runner.Runner\<close> without its HTTP client, and the configurations of the ramp tests.\<close>

record Runner =
  tasks :: "Task list"
  workerCount :: int
  requestCount :: int

record UserLoadConfig =
  StartUsers :: int
  MaxUsers :: int
  StepUsers :: int
  DurationPerStep :: Duration

record DataLoadConfig =
  InitialDataSize :: int
  MaxDataSize :: int
  DataSizeMultiplier :: float64
  StepsCount :: int

text \<open>\<open>runner.LoadTestResult\<close>; the wall-clock \<open>Timestamp\<close> is left out.\<close>

record LoadTestResult =
  UserCount :: int
  DataSize :: int
  Results :: "Result list"
  StepNumber :: int

subsection \<open>The fixed worker pool\<close>

text \<open>
  \<open>Runner.Run\<close> starts \<open>workerCount\<close> worker goroutines, a goroutine that closes the
  result channel once every worker has finished, and a producer goroutine that sends every
  task \<open>requestCount\<close> times on the unbuffered task channel and then closes it; the caller
  collects from the result channel until it is closed. The goroutines are modelled as an
  interleaving transition system. A communication on an unbuffered channel is one step
  that moves both parties.
\<close>

datatype worker = Waiting | Requesting Task | Sending Result | Finished

record pool =
  queue :: "Task list"
  taskChanClosed :: bool
  workers :: "worker list"
  resultChanClosed :: bool
  collected :: "Result list"

text \<open>The sends of the producer goroutine, in order.\<close>

definition produced :: "Runner \<Rightarrow> Task list" where
  "produced r = concat (map (\<lambda>task. replicate (nat (requestCount r)) task) (tasks r))"

definition pool_init :: "Runner \<Rightarrow> pool" where
  "pool_init r = \<lparr>queue = produced r, taskChanClosed = False,
     workers = replicate (nat (workerCount r)) Waiting,
     resultChanClosed = False, collected = []\<rparr>"

text \<open>
  The Result a worker sends for a task: one of the three sends of \<open>Runner.worker\<close>
  (the request could not be built; the transport failed; a response arrived). The error,
  the status code and the duration come from the network.
\<close>

inductive worker_result :: "Task \<Rightarrow> Result \<Rightarrow> bool" where
  request_error:
    "worker_result task \<lparr>URL = T_URL task, Method = T_Method task, StatusCode = 0,
       Duration = 0, Error = Some err, ThreadID = 0, StartTime = 0, EndTime = 0\<rparr>"
| transport_error:
    "worker_result task \<lparr>URL = T_URL task, Method = T_Method task, StatusCode = 0,
       Duration = d, Error = Some err, ThreadID = 0, StartTime = 0, EndTime = 0\<rparr>"
| response:
    "worker_result task \<lparr>URL = T_URL task, Method = T_Method task, StatusCode = code,
       Duration = d, Error = None, ThreadID = 0, StartTime = 0, EndTime = 0\<rparr>"

inductive pool_step :: "pool \<Rightarrow> pool \<Rightarrow> bool" where
  send_task:
    "queue s = task # rest \<Longrightarrow> i < length (workers s) \<Longrightarrow> workers s ! i = Waiting \<Longrightarrow>
     pool_step s (s\<lparr>queue := rest, workers := (workers s)[i := Requesting task]\<rparr>)"
| close_taskChan:
    "queue s = [] \<Longrightarrow> \<not> taskChanClosed s \<Longrightarrow>
     pool_step s (s\<lparr>taskChanClosed := True\<rparr>)"
| do_request:
    "i < length (workers s) \<Longrightarrow> workers s ! i = Requesting task \<Longrightarrow>
     worker_result task result \<Longrightarrow>
     pool_step s (s\<lparr>workers := (workers s)[i := Sending result]\<rparr>)"
| collect_result:
    "i < length (workers s) \<Longrightarrow> workers s ! i = Sending result \<Longrightarrow>
     pool_step s (s\<lparr>workers := (workers s)[i := Waiting],
                    collected := collected s @ [result]\<rparr>)"
| worker_done:
    "i < length (workers s) \<Longrightarrow> workers s ! i = Waiting \<Longrightarrow> taskChanClosed s \<Longrightarrow>
     pool_step s (s\<lparr>workers := (workers s)[i := Finished]\<rparr>)"
| close_resultChan:
    "list_all (\<lambda>w. w = Finished) (workers s) \<Longrightarrow> \<not> resultChanClosed s \<Longrightarrow>
     pool_step s (s\<lparr>resultChanClosed := True\<rparr>)"

text \<open>
  The states a run of \<open>Runner.Run\<close> can be in. \<open>Run\<close> returns \<open>collected s\<close> from a
  state \<open>s\<close> whose result channel is closed.
\<close>

definition pool_reachable :: "Runner \<Rightarrow> pool \<Rightarrow> bool" where
  "pool_reachable r s = pool_step\<^sup>*\<^sup>* (pool_init r) s"

text \<open>A bound on the steps a pool can still take.\<close>

fun worker_weight :: "worker \<Rightarrow> nat" where
  "worker_weight Finished = 0"
| "worker_weight Waiting = 1"
| "worker_weight (Sending result) = 2"
| "worker_weight (Requesting task) = 3"

definition pool_measure :: "pool \<Rightarrow> nat" where
  "pool_measure s = 3 * length (queue s) + sum_list (map worker_weight (workers s))
     + (if taskChanClosed s then 0 else 1) + (if resultChanClosed s then 0 else 1)"

text \<open>What identifies the request of a task or of a Result: the URL and the method.\<close>

definition task_key :: "Task \<Rightarrow> string \<times> string" where
  "task_key task = (T_URL task, T_Method task)"

definition result_key :: "Result \<Rightarrow> string \<times> string" where
  "result_key result = (URL result, Method result)"

text \<open>The request a worker holds, as a multiset of at most one key.\<close>

definition in_flight :: "worker \<Rightarrow> (string \<times> string) multiset" where
  "in_flight w = (case w of
     Requesting task \<Rightarrow> {#task_key task#}
   | Sending result \<Rightarrow> {#result_key result#}
   | _ \<Rightarrow> {#})"

text \<open>
  What holds in every state of a run: the requests collected, held by workers and still to
  be sent are together the requests of the producer; the task channel is closed only
  after the last send; a worker finishes only after the task channel is closed; the result
  channel is closed only after every worker has finished.
\<close>

definition pool_inv :: "Runner \<Rightarrow> pool \<Rightarrow> bool" where
  "pool_inv r s =
     (mset (map result_key (collected s)) + sum_list (map in_flight (workers s))
        + mset (map task_key (queue s)) = mset (map task_key (produced r)) \<and>
      length (workers s) = nat (workerCount r) \<and>
      (taskChanClosed s \<longrightarrow> queue s = []) \<and>
      (Finished \<in> set (workers s) \<longrightarrow> taskChanClosed s) \<and>
      (resultChanClosed s \<longrightarrow> list_all (\<lambda>w. w = Finished) (workers s)))"

text \<open>A pool of one worker for one request, and the state in which its run has returned.\<close>

definition sample_task :: Task where
  "sample_task = \<lparr>T_URL = ''/a'', T_Method = ''GET'', Headers = [], Body = []\<rparr>"

definition one_worker :: Runner where
  "one_worker = \<lparr>tasks = [sample_task], workerCount = 1, requestCount = 1\<rparr>"

definition one_worker_done :: pool where
  "one_worker_done = \<lparr>queue = [], taskChanClosed = True, workers = [Finished],
     resultChanClosed = True, collected = [success ''GET'' ''/a'' (5 * Millisecond)]\<rparr>"

subsection \<open>The data-volume ramp\<close>

definition calculateRequestCount :: "int \<Rightarrow> int" where
  "calculateRequestCount dataSize =
     (if dataSize < 1000 then 100
      else if dataSize < 10000 then 50
      else if dataSize < 100000 then 20
      else 10)"

text \<open>
  The loop of \<open>RunDataLoadTest\<close>. \<open>run step r\<close> stands for the Results that the call of
  \<open>r.Run()\<close> in step \<open>step\<close> returns.
\<close>

function data_load_loop ::
  "(int \<Rightarrow> Runner \<Rightarrow> Result list) \<Rightarrow> Runner \<Rightarrow> DataLoadConfig \<Rightarrow> int \<Rightarrow> int \<Rightarrow>
   LoadTestResult list \<Rightarrow> LoadTestResult list" where
  "data_load_loop run r config step currentSize results =
     (if step < StepsCount config \<and> currentSize \<le> MaxDataSize config then
        let originalRequestCount = requestCount r;
            r1 = r\<lparr>requestCount := calculateRequestCount currentSize\<rparr>;
            testResults = run step r1;
            results1 = results @ [\<lparr>UserCount = 0, DataSize = currentSize,
                                    Results = testResults, StepNumber = 0\<rparr>];
            r2 = r1\<lparr>requestCount := originalRequestCount\<rparr>
        in data_load_loop run r2 config (step + 1)
             (f64_to_int (fmul (f64_of_int currentSize) (DataSizeMultiplier config))) results1
      else results)"
  by pat_completeness auto
termination
  by (relation "measure (\<lambda>(run, r, config, step, currentSize, results). nat (StepsCount config - step))")
     auto

declare data_load_loop.simps [simp del]

definition RunDataLoadTest ::
  "(int \<Rightarrow> Runner \<Rightarrow> Result list) \<Rightarrow> Runner \<Rightarrow> DataLoadConfig \<Rightarrow> LoadTestResult list" where
  "RunDataLoadTest run r config = data_load_loop run r config 0 (InitialDataSize config) []"

text \<open>
  A pool in which every request succeeds at once, a runner with four workers and the
  data-volume scenario of the specification.
\<close>

definition echo_run :: "int \<Rightarrow> Runner \<Rightarrow> Result list" where
  "echo_run step r =
     concat (map (\<lambda>task. replicate (nat (requestCount r)) (success (T_Method task) (T_URL task) 0))
       (tasks r))"

definition sample_runner :: Runner where
  "sample_runner = \<lparr>tasks = [sample_task], workerCount = 4, requestCount = 1\<rparr>"

definition sample_data_config :: DataLoadConfig where
  "sample_data_config = \<lparr>InitialDataSize = 1000, MaxDataSize = 125000,
     DataSizeMultiplier = Fin 5, StepsCount = 4\<rparr>"

subsection \<open>The user-load ramp\<close>

text \<open>
  The user counts of the ramp come from the command line unchecked, so their arithmetic is
  written with the wrap-around of the 64-bit \<open>int\<close>.
\<close>

definition wrap64 :: "int \<Rightarrow> int" where
  "wrap64 x = (x + 2 ^ 63) mod 2 ^ 64 - 2 ^ 63"

text \<open>
  The loop of \<open>RunUserLoadTest\<close>. A step first creates its result channel with capacity
  \<open>currentUsers * len(r.tasks)\<close>; \<open>make\<close> panics when the capacity is negative or more than
  the runtime can allocate, and \<open>chanLimit\<close> is the largest capacity it can.

  Then the virtual users of the step run concurrently until the deadline of the step, the
  controller closes the channel and drains it, and only then cancels the step and waits for
  the users. \<open>step_body stepNumber currentUsers\<close> is the outcome of this part: \<open>Inr\<close> the
  Results drained from the channel, or \<open>Inl\<close> the panic of a virtual user, which ends the
  process. A user panics with \<open>IntnInvalidArgument\<close> when it picks a task from an empty task
  list (\<open>rand.Intn(0)\<close>), and with \<open>SendOnClosedChannel\<close> when its request is still in flight
  at the deadline and it sends the Result after the controller has closed the channel.
  Which of the outcomes a step has depends on the timing of the requests, so it is a
  parameter of the loop.

  The loop need not terminate (a negative \<open>StepUsers\<close>), so it is a partial function:
  \<open>None\<close> is a run that never returns.
\<close>

partial_function (option) user_load_loop ::
  "int \<Rightarrow> (int \<Rightarrow> int \<Rightarrow> panic + Result list) \<Rightarrow> Runner \<Rightarrow> UserLoadConfig \<Rightarrow> int \<Rightarrow> int \<Rightarrow>
   LoadTestResult list \<Rightarrow> (panic + LoadTestResult list) option" where
  "user_load_loop chanLimit step_body r config stepNumber currentUsers results =
     (if currentUsers \<le> MaxUsers config then
        let capacity = wrap64 (currentUsers * int (length (tasks r))) in
        if capacity < 0 \<or> chanLimit < capacity then Some (Inl MakeChanSizeOutOfRange)
        else
          case step_body stepNumber currentUsers of
            Inl p \<Rightarrow> Some (Inl p)
          | Inr stepResults \<Rightarrow>
              let results1 = results @ [\<lparr>UserCount = currentUsers, DataSize = 0,
                                          Results = stepResults, StepNumber = stepNumber\<rparr>]
              in if currentUsers < MaxUsers config
                 then user_load_loop chanLimit step_body r config (wrap64 (stepNumber + 1))
                        (wrap64 (currentUsers + StepUsers config)) results1
                 else Some (Inr results1)
      else Some (Inr results))"


definition RunUserLoadTest ::
  "int \<Rightarrow> (int \<Rightarrow> int \<Rightarrow> panic + Result list) \<Rightarrow> Runner \<Rightarrow> UserLoadConfig \<Rightarrow>
   (panic + LoadTestResult list) option" where
  "RunUserLoadTest chanLimit step_body r config =
     (if StepUsers config = 0 then Some (Inl DivideByZero)
      else user_load_loop chanLimit step_body r config 0 (StartUsers config) [])"



section \<open>Degradation detector\<close>

record DegradationReport =
  LatencyIncrease :: float64
  ErrorRateIncrease :: float64
  ThroughputDecrease :: float64
  SuccessRateDecrease :: float64

record Comparison =
  Current :: EndpointStatistics
  Previous :: EndpointStatistics
  Degradation :: bool
  Changes :: DegradationReport

text \<open>
  \<open>history.TestHistory\<close> and \<open>history.Store\<close>, without the time stamps, the git metadata
  and the directory.
\<close>

record TestHistory =
  RunID :: string
  Statistics :: Statistics
  Endpoints :: "(string \<times> Comparison) list"
  BaselineID :: string
  H_Degradation :: bool
  ThresholdPct :: float64

record Store =
  thresholdPct :: float64

definition percentageIncrease :: "float64 \<Rightarrow> float64 \<Rightarrow> float64" where
  "percentageIncrease current previous =
     (if previous = Fin 0 then Fin 0
      else fmul (fdiv (fsub current previous) previous) (Fin 100))"

definition percentageDecrease :: "float64 \<Rightarrow> float64 \<Rightarrow> float64" where
  "percentageDecrease current previous = fneg (percentageIncrease current previous)"

text \<open>\<open>util.CalculatePercentageChange\<close>, the same computation in the utilities.\<close>

definition CalculatePercentageChange :: "float64 \<Rightarrow> float64 \<Rightarrow> float64" where
  "CalculatePercentageChange current previous =
     (if previous = Fin 0 then Fin 0
      else fmul (fdiv (fsub current previous) previous) (Fin 100))"

definition successRate :: "EndpointStatistics \<Rightarrow> float64" where
  "successRate stats =
     (if TotalRequests stats = 0 then Fin 0
      else fmul (fdiv (f64_of_int (SuccessRequests stats)) (f64_of_int (TotalRequests stats)))
             (Fin 100))"

definition isDegraded :: "Store \<Rightarrow> DegradationReport \<Rightarrow> bool" where
  "isDegraded s changes =
     (fgt (LatencyIncrease changes) (thresholdPct s) \<or>
      fgt (ErrorRateIncrease changes) (thresholdPct s) \<or>
      fgt (ThroughputDecrease changes) (thresholdPct s) \<or>
      fgt (SuccessRateDecrease changes) (thresholdPct s))"

text \<open>The four changes that \<open>compareWithBaseline\<close> computes for an endpoint.\<close>

definition endpoint_changes :: "EndpointStatistics \<Rightarrow> EndpointStatistics \<Rightarrow> DegradationReport" where
  "endpoint_changes currentStats baselineStats = \<lparr>
     LatencyIncrease =
       percentageIncrease (Seconds (AverageDuration currentStats))
         (Seconds (AverageDuration baselineStats)),
     ErrorRateIncrease =
       percentageIncrease (f64_of_int (FailedRequests currentStats))
         (f64_of_int (FailedRequests baselineStats)),
     ThroughputDecrease =
       percentageDecrease (RequestsPerSecond currentStats) (RequestsPerSecond baselineStats),
     SuccessRateDecrease =
       percentageDecrease (successRate currentStats) (successRate baselineStats) \<rparr>"

definition endpoint_comparison ::
  "Store \<Rightarrow> EndpointStatistics \<Rightarrow> EndpointStatistics \<Rightarrow> Comparison" where
  "endpoint_comparison s currentStats baselineStats =
     (let changes = endpoint_changes currentStats baselineStats in
      \<lparr>Current = currentStats, Previous = baselineStats,
       Degradation = isDegraded s changes, Changes = changes\<rparr>)"

text \<open>
  The body of the loop of \<open>compareWithBaseline\<close> for one entry of the current statistics;
  the state is the current history and the flag \<open>hasDegradation\<close>.
\<close>

definition compare_step ::
  "Store \<Rightarrow> TestHistory \<Rightarrow> TestHistory \<times> bool \<Rightarrow> string \<times> EndpointStatistics \<Rightarrow>
   TestHistory \<times> bool" where
  "compare_step s baseline st entry =
     (case map_of (EndpointStats (Statistics baseline)) (fst entry) of
        None \<Rightarrow> st
      | Some baselineStats \<Rightarrow>
          let comparison = endpoint_comparison s (snd entry) baselineStats in
          ((fst st)\<lparr>Endpoints := AList.update (fst entry) comparison (Endpoints (fst st))\<rparr>,
           if Degradation comparison then True else snd st))"

definition compareWithBaseline :: "Store \<Rightarrow> TestHistory \<Rightarrow> TestHistory \<Rightarrow> TestHistory \<times> bool" where
  "compareWithBaseline s current baseline =
     foldl (compare_step s baseline) (current, False) (EndpointStats (Statistics current))"

subsection \<open>Sample histories\<close>

text \<open>
  The history of a run over a batch, as \<open>SaveResults\<close> builds it before the comparison,
  and two runs: against the baseline, \<open>GET /a\<close> is 10 percent slower, \<open>GET /b\<close> is
  21 percent slower, \<open>GET /old\<close> is gone and \<open>GET /new\<close> is new.
\<close>

definition statistics_of :: "Result list \<Rightarrow> Statistics" where
  "statistics_of results =
     (case Calculate results of Inl p \<Rightarrow> empty_statistics | Inr stats \<Rightarrow> stats)"

definition history_of :: "string \<Rightarrow> Result list \<Rightarrow> TestHistory" where
  "history_of run results = \<lparr>RunID = run, Statistics = statistics_of results, Endpoints = [],
     BaselineID = [], H_Degradation = False, ThresholdPct = Fin 10\<rparr>"

definition baseline_results :: "Result list" where
  "baseline_results =
     [success ''GET'' ''/a'' (100 * Second), success ''GET'' ''/b'' (100 * Second),
      success ''GET'' ''/old'' Second]"

definition current_results :: "Result list" where
  "current_results =
     [success ''GET'' ''/a'' (110 * Second), success ''GET'' ''/b'' (121 * Second),
      success ''GET'' ''/new'' Second]"

definition sample_store :: Store where
  "sample_store = \<lparr>thresholdPct = Fin 10\<rparr>"

section \<open>Evaluation of the float64 model\<close>

lemma pow2_code [code]:
  "pow2 e = (if e = 0 then 1 else if e < 0 then 1 / pow2 (- e)
             else let h = pow2 (e div 2) in if even e then h * h else 2 * h * h)"
proof (cases "0 < e")
  case True
  define k where "k = nat (e div 2)"
  have h: "pow2 (e div 2) = 2 ^ k"
    using True by (simp add: pow2_def k_def)
  show ?thesis
  proof (cases "even e")
    case True
    from True obtain m where m: "e = 2 * m" by (elim evenE)
    have "nat e = k + k" unfolding k_def using \<open>0 < e\<close> m by simp
    then have "pow2 e = 2 ^ k * 2 ^ k"
      using \<open>0 < e\<close> by (simp add: pow2_def power_add)
    then show ?thesis using \<open>0 < e\<close> True h by (simp add: Let_def)
  next
    case False
    from False obtain m where m: "e = 2 * m + 1" by (elim oddE)
    have "nat e = Suc (k + k)" unfolding k_def using \<open>0 < e\<close> m by simp
    then have "pow2 e = 2 * 2 ^ k * 2 ^ k"
      using \<open>0 < e\<close> by (simp add: pow2_def power_add)
    then show ?thesis using \<open>0 < e\<close> False h by (simp add: Let_def)
  qed
next
  case False
  then show ?thesis by (simp add: pow2_def)
qed

section \<open>The statistics aggregator: counters\<close>

lemma count_status_fields [simp]:
  "TotalRequests (count_status c e) = TotalRequests e"
  "SuccessRequests (count_status c e) = SuccessRequests e"
  "FailedRequests (count_status c e) = FailedRequests e"
  by (simp_all add: count_status_def Let_def)

lemma Calculate_step_total [simp]:
  "S_TotalRequests (Calculate_step s r) = S_TotalRequests s + 1"
  by (simp add: Calculate_step_def Let_def)

lemma Calculate_step_other_key:
  "k \<noteq> endpoint_key r \<Longrightarrow>
   map_of (EndpointStats (Calculate_step s r)) k = map_of (EndpointStats s) k"
  by (simp add: Calculate_step_def Let_def update_conv')

lemma Calculate_step_counts:
  assumes "\<forall>k e. map_of (EndpointStats s) k = Some e \<longrightarrow>
             TotalRequests e = SuccessRequests e + FailedRequests e"
    and "map_of (EndpointStats (Calculate_step s r)) k = Some e"
  shows "TotalRequests e = SuccessRequests e + FailedRequests e"
proof (cases "k = endpoint_key r")
  case False
  with assms show ?thesis by (simp add: Calculate_step_other_key)
next
  case True
  show ?thesis
  proof (cases "map_of (EndpointStats s) (endpoint_key r)")
    case None
    with assms(2) True show ?thesis
      by (auto simp add: Calculate_step_def Let_def update_conv' new_endpoint_def
          split: if_splits)
  next
    case (Some e0)
    with assms(1) have "TotalRequests e0 = SuccessRequests e0 + FailedRequests e0" by blast
    with assms(2) True Some show ?thesis
      by (auto simp add: Calculate_step_def Let_def update_conv' split: if_splits)
  qed
qed

lemma foldl_Calculate_step_total:
  "S_TotalRequests (foldl Calculate_step s rs) = S_TotalRequests s + int (length rs)"
  by (induction rs arbitrary: s) simp_all

lemma foldl_Calculate_step_counts:
  "\<forall>k e. map_of (EndpointStats s) k = Some e \<longrightarrow>
     TotalRequests e = SuccessRequests e + FailedRequests e \<Longrightarrow>
   map_of (EndpointStats (foldl Calculate_step s rs)) k = Some e \<Longrightarrow>
   TotalRequests e = SuccessRequests e + FailedRequests e"
proof (induction rs arbitrary: s)
  case Nil
  then show ?case by simp
next
  case (Cons r rs)
  have "\<forall>k e. map_of (EndpointStats (Calculate_step s r)) k = Some e \<longrightarrow>
          TotalRequests e = SuccessRequests e + FailedRequests e"
    using Calculate_step_counts [OF Cons.prems(1)] by blast
  from Cons.IH [OF this] Cons.prems(2) show ?case by simp
qed

lemma calculatePercentiles_counts:
  "calculatePercentiles e ds = Inr e' \<Longrightarrow>
     TotalRequests e' = TotalRequests e \<and> SuccessRequests e' = SuccessRequests e \<and>
     FailedRequests e' = FailedRequests e"
  by (auto simp add: calculatePercentiles_def Let_def split: sum.splits)

lemma calculateEndpointStats_counts:
  "calculateEndpointStats e rs = Inr e' \<Longrightarrow>
     TotalRequests e' = TotalRequests e \<and> SuccessRequests e' = SuccessRequests e \<and>
     FailedRequests e' = FailedRequests e"
  by (auto simp add: calculateEndpointStats_def Let_def split: sum.splits if_splits
      dest!: calculatePercentiles_counts)

text \<open>The second pass replaces every entry by what \<open>calculateEndpointStats\<close> makes of it.\<close>

lemma Calculate_pass2_backward:
  "Calculate_pass2 m rs = Inr m' \<Longrightarrow> map_of m' k = Some e' \<Longrightarrow>
     \<exists>e. map_of m k = Some e \<and> calculateEndpointStats e rs = Inr e'"
proof (induction m arbitrary: m')
  case Nil
  then show ?case by simp
next
  case (Cons p m)
  obtain key stat where p: "p = (key, stat)" by (cases p)
  from Cons.prems(1) p obtain stat' rest' where
    s: "calculateEndpointStats stat rs = Inr stat'" and
    r: "Calculate_pass2 m rs = Inr rest'" and
    m': "m' = (key, stat') # rest'"
    by (auto split: sum.splits)
  show ?case
  proof (cases "k = key")
    case True
    with Cons.prems(2) m' s p show ?thesis by simp
  next
    case False
    with Cons.prems(2) m' have "map_of rest' k = Some e'" by simp
    from Cons.IH [OF r this] False p show ?thesis by simp
  qed
qed

lemma Calculate_pass2_forward:
  "Calculate_pass2 m rs = Inr m' \<Longrightarrow> map_of m k = Some e \<Longrightarrow>
     \<exists>e'. calculateEndpointStats e rs = Inr e' \<and> map_of m' k = Some e'"
proof (induction m arbitrary: m')
  case Nil
  then show ?case by simp
next
  case (Cons p m)
  obtain key stat where p: "p = (key, stat)" by (cases p)
  from Cons.prems(1) p obtain stat' rest' where
    s: "calculateEndpointStats stat rs = Inr stat'" and
    r: "Calculate_pass2 m rs = Inr rest'" and
    m': "m' = (key, stat') # rest'"
    by (auto split: sum.splits)
  show ?case
  proof (cases "k = key")
    case True
    with Cons.prems(2) m' s p show ?thesis by simp
  next
    case False
    with Cons.prems(2) p have "map_of m k = Some e" by simp
    from Cons.IH [OF r this] False m' show ?thesis by simp
  qed
qed

text \<open>
  C1. Whenever \<open>Calculate\<close> produces a Statistics, its \<open>TotalRequests\<close> is the number of
  Results, and every entry of its endpoint map has
  \<open>TotalRequests = SuccessRequests + FailedRequests\<close>.
\<close>

theorem Calculate_counts:
  assumes "Calculate results = Inr stats"
  shows "S_TotalRequests stats = int (length results) \<and>
         (\<forall>key e. map_of (EndpointStats stats) key = Some e \<longrightarrow>
            TotalRequests e = SuccessRequests e + FailedRequests e)"
proof -
  from assms obtain m where
    m: "Calculate_pass2 (EndpointStats (Calculate_pass1 results)) results = Inr m" and
    stats: "stats = (Calculate_pass1 results)\<lparr>EndpointStats := m\<rparr>"
    by (auto simp add: Calculate_def Let_def split: sum.splits)
  have total: "S_TotalRequests stats = int (length results)"
    using stats by (simp add: Calculate_pass1_def foldl_Calculate_step_total empty_statistics_def)
  have "TotalRequests e = SuccessRequests e + FailedRequests e"
    if "map_of (EndpointStats stats) key = Some e" for key e
  proof -
    from that stats have "map_of m key = Some e" by simp
    from Calculate_pass2_backward [OF m this] obtain e0 where
      e0: "map_of (EndpointStats (Calculate_pass1 results)) key = Some e0" and
      c: "calculateEndpointStats e0 results = Inr e" by blast
    have "TotalRequests e0 = SuccessRequests e0 + FailedRequests e0"
      using foldl_Calculate_step_counts [of empty_statistics results key e0] e0
      by (simp add: Calculate_pass1_def empty_statistics_def)
    with calculateEndpointStats_counts [OF c] show ?thesis by simp
  qed
  with total show ?thesis by blast
qed

text \<open>
  A batch of three Results, two of them for \<open>GET /a\<close> (one success, one failure): the
  aggregator returns, counts three requests, and two for that endpoint.
\<close>

theorem Calculate_counts_witness:
  "\<exists>stats e. Calculate three_results = Inr stats \<and> S_TotalRequests stats = 3 \<and>
     map_of (EndpointStats stats) ''GET /a'' = Some e \<and> TotalRequests e = 2 \<and>
     TotalRequests e = SuccessRequests e + FailedRequests e"
proof -
  have "case Calculate three_results of
          Inl p \<Rightarrow> False
        | Inr stats \<Rightarrow>
            (case map_of (EndpointStats stats) ''GET /a'' of
               None \<Rightarrow> False | Some e \<Rightarrow> TotalRequests e = 2)"
    by code_simp
  then obtain stats e where c: "Calculate three_results = Inr stats"
    and e: "map_of (EndpointStats stats) ''GET /a'' = Some e" and t: "TotalRequests e = 2"
    by (auto split: sum.splits option.splits)
  have "length three_results = 3" by (simp add: three_results_def)
  with Calculate_counts [OF c] have "S_TotalRequests stats = 3"
    and "TotalRequests e = SuccessRequests e + FailedRequests e"
    using e by simp_all
  with c e t show ?thesis by blast
qed

section \<open>The statistics aggregator: the durations of an endpoint\<close>

text \<open>
  C2 (the code departs from the claim). The second pass selects the durations of an
  endpoint by URL alone. In a batch with one successful \<open>GET /a\<close> of 10 ms and one
  successful \<open>POST /a\<close> of 20 ms, the durations used for \<open>GET /a\<close> are both, although the
  successful Results of that method and URL took 10 ms only, and the median reported for
  \<open>GET /a\<close> is the 20 ms of the \<open>POST\<close>.
\<close>

theorem durations_ignore_method:
  "(case map_of (EndpointStats (Calculate_pass1 shared_url_results)) ''GET /a'' of
      None \<Rightarrow> False
    | Some stat \<Rightarrow>
        endpoint_durations stat shared_url_results = [10 * Millisecond, 20 * Millisecond]) \<and>
   map Duration
     (filter (\<lambda>r. Method r = ''GET'' \<and> URL r = ''/a'' \<and> Error r = None) shared_url_results)
     = [10 * Millisecond] \<and>
   (case Calculate shared_url_results of
      Inl p \<Rightarrow> False
    | Inr stats \<Rightarrow>
        (case map_of (EndpointStats stats) ''GET /a'' of
           None \<Rightarrow> False
         | Some e \<Rightarrow> MedianDuration e = 20 * Millisecond \<and> P50Latency e = 20 * Millisecond))"
  by code_simp

section \<open>The statistics aggregator: percentiles of the 100 samples\<close>

lemma samples_sorted: "sort samples = samples"
  by code_simp

lemma samples_length: "length samples = 100"
  by code_simp

lemma indices_of_100:
  "go_div 100 2 = 50"
  "f64_to_int (fmul (f64_of_int 100) c095) = 95"
  "f64_to_int (fmul (f64_of_int 100) c099) = 99"
  "go_div 5000 100 = 50" "go_div 9500 100 = 95" "go_div 9900 100 = 99"
  by code_simp+

lemma samples_at:
  "index samples 50 = Inr (510 * Millisecond)"
  "index samples 95 = Inr (960 * Millisecond)"
  "index samples 99 = Inr (1000 * Millisecond)"
  by code_simp+

text \<open>
  C5, as the code has it. For an endpoint with successes whose sorted durations are
  10 ms, 20 ms, ..., 1000 ms, both index formulas select the elements 50, 95 and 99 of the
  sorted slice, counted from zero: the median and p50 are 510 ms, the 95th percentile is
  960 ms and the 99th is 1000 ms.
\<close>

theorem percentiles_of_100_samples:
  assumes "sort (endpoint_durations stat results) = samples"
    and "SuccessRequests stat \<noteq> 0"
  shows "\<exists>e. calculateEndpointStats stat results = Inr e \<and>
           MedianDuration e = 510 * Millisecond \<and>
           Percentile95 e = 960 * Millisecond \<and> Percentile99 e = 1000 * Millisecond \<and>
           P50Latency e = 510 * Millisecond \<and>
           P95Latency e = 960 * Millisecond \<and> P99Latency e = 1000 * Millisecond"
proof -
  have len: "length (endpoint_durations stat results) = 100"
    using assms(1) samples_length by (metis length_sort)
  then have ne: "endpoint_durations stat results \<noteq> []"
    by auto
  show ?thesis
    using assms ne
    by (simp add: calculateEndpointStats_def calculatePercentiles_def Let_def len
        samples_sorted samples_length indices_of_100 samples_at)
qed

theorem percentiles_of_100_samples_witness:
  "\<exists>e. calculateEndpointStats ((new_endpoint (success ''GET'' ''/a'' 0))\<lparr>SuccessRequests := 100\<rparr>)
          sample_results = Inr e \<and>
       MedianDuration e = 510 * Millisecond \<and>
       Percentile95 e = 960 * Millisecond \<and> Percentile99 e = 1000 * Millisecond \<and>
       P50Latency e = 510 * Millisecond \<and>
       P95Latency e = 960 * Millisecond \<and> P99Latency e = 1000 * Millisecond"
proof -
  have "sort (endpoint_durations
          ((new_endpoint (success ''GET'' ''/a'' 0))\<lparr>SuccessRequests := 100\<rparr>) sample_results)
        = samples"
    by code_simp
  moreover have
    "SuccessRequests ((new_endpoint (success ''GET'' ''/a'' 0))\<lparr>SuccessRequests := 100\<rparr>) \<noteq> 0"
    by simp
  ultimately show ?thesis by (rule percentiles_of_100_samples)
qed

text \<open>
  C5 as stated fails: on the batch of 100 successes with these durations, neither formula
  gives 950 ms for the 95th percentile or 990 ms for the 99th.
\<close>

theorem percentiles_of_100_samples_counterexample:
  "(case Calculate sample_results of
      Inl p \<Rightarrow> False
    | Inr stats \<Rightarrow>
        (case map_of (EndpointStats stats) ''GET /a'' of
           None \<Rightarrow> False
         | Some e \<Rightarrow>
             Percentile95 e \<noteq> 950 * Millisecond \<and> Percentile99 e \<noteq> 990 * Millisecond \<and>
             P95Latency e \<noteq> 950 * Millisecond \<and> P99Latency e \<noteq> 990 * Millisecond))"
  by code_simp

section \<open>The statistics aggregator: endpoints without a success\<close>

lemma Calculate_step_failed:
  "Error r \<noteq> None \<Longrightarrow>
   map_of (EndpointStats (Calculate_step s r)) (endpoint_key r) =
     Some ((case map_of (EndpointStats s) (endpoint_key r) of
              None \<Rightarrow> new_endpoint r | Some e \<Rightarrow> e)
           \<lparr>TotalRequests :=
               TotalRequests (case map_of (EndpointStats s) (endpoint_key r) of
                                None \<Rightarrow> new_endpoint r | Some e \<Rightarrow> e) + 1,
             FailedRequests :=
               FailedRequests (case map_of (EndpointStats s) (endpoint_key r) of
                                 None \<Rightarrow> new_endpoint r | Some e \<Rightarrow> e) + 1\<rparr>)"
  by (simp add: Calculate_step_def Let_def update_conv')

lemma Calculate_step_untouched:
  assumes "\<forall>e. map_of (EndpointStats s) key = Some e \<longrightarrow> untouched e"
    and "endpoint_key r = key \<longrightarrow> Error r \<noteq> None"
    and "map_of (EndpointStats (Calculate_step s r)) key = Some e"
  shows "untouched e"
proof (cases "endpoint_key r = key")
  case False
  with assms(1,3) show ?thesis by (simp add: Calculate_step_other_key)
next
  case True
  with assms(2) have err: "Error r \<noteq> None" by simp
  show ?thesis
  proof (cases "map_of (EndpointStats s) key")
    case None
    with assms(3) True err show ?thesis
      using Calculate_step_failed [OF err, of s]
      by (auto simp add: untouched_def new_endpoint_def)
  next
    case (Some e0)
    with assms(1) have "untouched e0" by simp
    with assms(3) True err Some show ?thesis
      using Calculate_step_failed [OF err, of s]
      by (auto simp add: untouched_def)
  qed
qed

lemma foldl_Calculate_step_untouched:
  "\<forall>e. map_of (EndpointStats s) key = Some e \<longrightarrow> untouched e \<Longrightarrow>
   \<forall>r \<in> set rs. endpoint_key r = key \<longrightarrow> Error r \<noteq> None \<Longrightarrow>
   map_of (EndpointStats (foldl Calculate_step s rs)) key = Some e \<Longrightarrow> untouched e"
proof (induction rs arbitrary: s)
  case Nil
  then show ?case by simp
next
  case (Cons r rs)
  have "\<forall>e. map_of (EndpointStats (Calculate_step s r)) key = Some e \<longrightarrow> untouched e"
  proof (intro allI impI)
    fix e
    assume "map_of (EndpointStats (Calculate_step s r)) key = Some e"
    moreover have "endpoint_key r = key \<longrightarrow> Error r \<noteq> None"
      using Cons.prems(2) by simp
    ultimately show "untouched e"
      using Calculate_step_untouched [OF Cons.prems(1)] by blast
  qed
  from Cons.IH [OF this] Cons.prems(2,3) show ?case by simp
qed

lemma no_success_no_durations:
  "\<forall>r \<in> set results. URL r = ES_URL e \<longrightarrow> Error r \<noteq> None \<Longrightarrow>
   endpoint_durations e results = []"
  by (induction results) (auto simp add: endpoint_durations_def)

text \<open>
  C7, as the code has it. Take an endpoint of the first pass none of whose Results
  succeeded, and whose URL no successful Result has. The second pass leaves its entry as it
  is, without a panic; whenever \<open>Calculate\<close> returns, that entry is the endpoint's
  statistics; its average, median, maximum, percentiles and requests per second are zero,
  and its minimum is the initial one hour.
\<close>

theorem zero_success_endpoint:
  assumes "map_of (EndpointStats (Calculate_pass1 results)) key = Some e"
    and "\<forall>r \<in> set results. endpoint_key r = key \<or> URL r = ES_URL e \<longrightarrow> Error r \<noteq> None"
  shows "calculateEndpointStats e results = Inr e \<and>
         (\<forall>stats. Calculate results = Inr stats \<longrightarrow> map_of (EndpointStats stats) key = Some e) \<and>
         SuccessRequests e = 0 \<and> AverageDuration e = 0 \<and> MedianDuration e = 0 \<and>
         MaxDuration e = 0 \<and> Percentile95 e = 0 \<and> Percentile99 e = 0 \<and>
         P50Latency e = 0 \<and> P95Latency e = 0 \<and> P99Latency e = 0 \<and>
         RequestsPerSecond e = Fin 0 \<and> MinDuration e = Hour"
proof -
  have "endpoint_durations e results = []"
    using assms(2) by (intro no_success_no_durations) blast
  then have same: "calculateEndpointStats e results = Inr e"
    by (simp add: calculateEndpointStats_def)
  have "untouched e"
    using foldl_Calculate_step_untouched [of empty_statistics key results e] assms
    by (simp add: Calculate_pass1_def empty_statistics_def)
  moreover have "map_of (EndpointStats stats) key = Some e"
    if "Calculate results = Inr stats" for stats
  proof -
    from that obtain m where
      m: "Calculate_pass2 (EndpointStats (Calculate_pass1 results)) results = Inr m" and
      stats: "stats = (Calculate_pass1 results)\<lparr>EndpointStats := m\<rparr>"
      by (auto simp add: Calculate_def Let_def split: sum.splits)
    from Calculate_pass2_forward [OF m assms(1)] same stats show ?thesis by simp
  qed
  ultimately show ?thesis using same by (simp add: untouched_def)
qed

text \<open>A batch of one failed request: the statistics of its endpoint.\<close>

theorem zero_success_endpoint_witness:
  "Calculate [failure ''GET'' ''/a''] =
     Inr \<lparr>EndpointStats =
            [(''GET /a'', (new_endpoint (failure ''GET'' ''/a''))
                \<lparr>TotalRequests := 1, FailedRequests := 1\<rparr>)],
          S_TotalRequests = 1, S_TotalDuration = 0\<rparr> \<and>
   AverageDuration ((new_endpoint (failure ''GET'' ''/a''))
     \<lparr>TotalRequests := 1, FailedRequests := 1\<rparr>) = 0 \<and>
   MinDuration ((new_endpoint (failure ''GET'' ''/a''))
     \<lparr>TotalRequests := 1, FailedRequests := 1\<rparr>) = Hour"
proof -
  let ?e = "(new_endpoint (failure ''GET'' ''/a''))\<lparr>TotalRequests := 1, FailedRequests := 1\<rparr>"
  have 1: "map_of (EndpointStats (Calculate_pass1 [failure ''GET'' ''/a''])) ''GET /a'' = Some ?e"
    by code_simp
  have 2: "\<forall>r \<in> set [failure ''GET'' ''/a''].
             endpoint_key r = ''GET /a'' \<or> URL r = ES_URL ?e \<longrightarrow> Error r \<noteq> None"
    by (simp add: failure_def)
  have 3: "Calculate [failure ''GET'' ''/a''] =
     Inr \<lparr>EndpointStats = [(''GET /a'', ?e)], S_TotalRequests = 1, S_TotalDuration = 0\<rparr>"
    by code_simp
  from zero_success_endpoint [OF 1 2] 3 show ?thesis by simp
qed

text \<open>
  C7 as stated fails: the minimum of an endpoint without a success is one hour, not zero.
\<close>

theorem zero_success_endpoint_counterexample:
  "(case Calculate [failure ''GET'' ''/a''] of
      Inl p \<Rightarrow> False
    | Inr stats \<Rightarrow>
        (case map_of (EndpointStats stats) ''GET /a'' of
           None \<Rightarrow> False
         | Some e \<Rightarrow> SuccessRequests e = 0 \<and> MinDuration e = 3600000000000 \<and> MinDuration e \<noteq> 0))"
  by code_simp

section \<open>The statistics aggregator: totality\<close>

text \<open>
  C10 (the code departs from the claim). The aggregator is not total. In a batch where
  \<open>GET /a\<close> failed and \<open>POST /a\<close> succeeded, the durations selected for \<open>GET /a\<close> are not
  empty, and the average divides the total duration by its zero successes: \<open>Calculate\<close>
  panics.
\<close>

theorem Calculate_divides_by_zero:
  "Calculate failing_get_results = Inl DivideByZero"
  by code_simp

section \<open>The fixed worker pool\<close>

lemma in_flight_simps [simp]:
  "in_flight Waiting = {#}" "in_flight Finished = {#}"
  "in_flight (Requesting task) = {#task_key task#}"
  "in_flight (Sending result) = {#result_key result#}"
  by (simp_all add: in_flight_def)

lemma sum_list_map_update:
  fixes f :: "'a \<Rightarrow> 'b::comm_monoid_add"
  shows "i < length ws \<Longrightarrow>
         sum_list (map f (ws[i := w])) + f (ws ! i) = sum_list (map f ws) + f w"
proof (induction ws arbitrary: i)
  case Nil
  then show ?case by simp
next
  case (Cons a ws)
  show ?case
  proof (cases i)
    case 0
    then show ?thesis by (simp add: ac_simps)
  next
    case (Suc j)
    with Cons.prems have "j < length ws" by simp
    from Cons.IH [OF this] Suc show ?thesis
      by (simp add: ac_simps)
  qed
qed

lemma worker_result_key: "worker_result task result \<Longrightarrow> result_key result = task_key task"
  by (auto elim!: worker_result.cases simp add: result_key_def task_key_def)

lemma sum_list_replicate_empty: "sum_list (replicate n ({#} :: 'a multiset)) = {#}"
  by (induction n) simp_all

lemma pool_inv_init: "pool_inv r (pool_init r)"
  by (simp add: pool_inv_def pool_init_def list_all_iff sum_list_replicate_empty)

lemma set_update_Finished:
  "i < length ws \<Longrightarrow> w \<noteq> Finished \<Longrightarrow> ws ! i \<noteq> Finished \<Longrightarrow>
   Finished \<in> set (ws[i := w]) \<longleftrightarrow> Finished \<in> set ws"
  by (auto simp add: in_set_conv_nth nth_list_update split: if_splits)

lemma pool_inv_step:
  assumes "pool_step s s'" and "pool_inv r s"
  shows "pool_inv r s'"
  using assms
proof (cases rule: pool_step.cases)
  case (send_task task rest i)
  have nf: "\<not> list_all (\<lambda>w. w = Finished) (workers s)"
    using send_task(3,4) by (auto simp add: list_all_length)
  have "sum_list (map in_flight ((workers s)[i := Requesting task])) + in_flight (workers s ! i)
        = sum_list (map in_flight (workers s)) + in_flight (Requesting task)"
    using send_task(3) by (rule sum_list_map_update)
  then have fl: "sum_list (map in_flight ((workers s)[i := Requesting task]))
        = sum_list (map in_flight (workers s)) + {#task_key task#}"
    using send_task(4) by simp
  have fin: "Finished \<in> set ((workers s)[i := Requesting task]) \<longleftrightarrow> Finished \<in> set (workers s)"
    using send_task(3,4) by (intro set_update_Finished) simp_all
  show ?thesis
    using assms(2) send_task nf fl fin
    by (auto simp add: pool_inv_def list_all_length nth_list_update)
next
  case close_taskChan
  with assms(2) show ?thesis by (simp add: pool_inv_def)
next
  case (do_request i task result)
  have "sum_list (map in_flight ((workers s)[i := Sending result])) + in_flight (workers s ! i)
        = sum_list (map in_flight (workers s)) + in_flight (Sending result)"
    using do_request(2) by (rule sum_list_map_update)
  then have fl: "sum_list (map in_flight ((workers s)[i := Sending result]))
        = sum_list (map in_flight (workers s))"
    using do_request(3) worker_result_key [OF do_request(4)] by simp
  have fin: "Finished \<in> set ((workers s)[i := Sending result]) \<longleftrightarrow> Finished \<in> set (workers s)"
    using do_request(2,3) by (intro set_update_Finished) simp_all
  have nf: "\<not> list_all (\<lambda>w. w = Finished) (workers s)"
    using do_request(2,3) by (auto simp add: list_all_length)
  show ?thesis
    using assms(2) do_request(1) nf fl fin
    by (auto simp add: pool_inv_def)
next
  case (collect_result i result)
  have "sum_list (map in_flight ((workers s)[i := Waiting])) + in_flight (workers s ! i)
        = sum_list (map in_flight (workers s)) + in_flight Waiting"
    using collect_result(2) by (rule sum_list_map_update)
  then have fl: "sum_list (map in_flight ((workers s)[i := Waiting])) + {#result_key result#}
        = sum_list (map in_flight (workers s))"
    using collect_result(3) by simp
  have fin: "Finished \<in> set ((workers s)[i := Waiting]) \<longleftrightarrow> Finished \<in> set (workers s)"
    using collect_result(2,3) by (intro set_update_Finished) simp_all
  have nf: "\<not> list_all (\<lambda>w. w = Finished) (workers s)"
    using collect_result(2,3) by (auto simp add: list_all_length)
  show ?thesis
    using assms(2) collect_result(1) nf fl [symmetric] fin
    by (auto simp add: pool_inv_def ac_simps)
next
  case (worker_done i)
  have "sum_list (map in_flight ((workers s)[i := Finished])) + in_flight (workers s ! i)
        = sum_list (map in_flight (workers s)) + in_flight Finished"
    using worker_done(2) by (rule sum_list_map_update)
  then have fl: "sum_list (map in_flight ((workers s)[i := Finished]))
        = sum_list (map in_flight (workers s))"
    using worker_done(3) by simp
  have nf: "\<not> list_all (\<lambda>w. w = Finished) (workers s)"
    using worker_done(2,3) by (auto simp add: list_all_length)
  show ?thesis
    using assms(2) worker_done(1,4) nf fl
    by (auto simp add: pool_inv_def)
next
  case close_resultChan
  with assms(2) show ?thesis by (simp add: pool_inv_def)
qed

lemma pool_inv_reachable: "pool_reachable r s \<Longrightarrow> pool_inv r s"
  unfolding pool_reachable_def
  by (induction rule: rtranclp_induct) (auto intro: pool_inv_init pool_inv_step)

lemma pool_step_measure:
  assumes "pool_step s s'"
  shows "pool_measure s' < pool_measure s"
  using assms
proof (cases rule: pool_step.cases)
  case (send_task task rest i)
  have "sum_list (map worker_weight ((workers s)[i := Requesting task])) + worker_weight (workers s ! i)
        = sum_list (map worker_weight (workers s)) + worker_weight (Requesting task)"
    using send_task(3) by (rule sum_list_map_update)
  with send_task show ?thesis by (simp add: pool_measure_def)
next
  case close_taskChan
  then show ?thesis by (simp add: pool_measure_def)
next
  case (do_request i task result)
  have "sum_list (map worker_weight ((workers s)[i := Sending result])) + worker_weight (workers s ! i)
        = sum_list (map worker_weight (workers s)) + worker_weight (Sending result)"
    using do_request(2) by (rule sum_list_map_update)
  with do_request show ?thesis by (simp add: pool_measure_def)
next
  case (collect_result i result)
  have "sum_list (map worker_weight ((workers s)[i := Waiting])) + worker_weight (workers s ! i)
        = sum_list (map worker_weight (workers s)) + worker_weight Waiting"
    using collect_result(2) by (rule sum_list_map_update)
  with collect_result show ?thesis by (simp add: pool_measure_def)
next
  case (worker_done i)
  have "sum_list (map worker_weight ((workers s)[i := Finished])) + worker_weight (workers s ! i)
        = sum_list (map worker_weight (workers s)) + worker_weight Finished"
    using worker_done(2) by (rule sum_list_map_update)
  with worker_done show ?thesis by (simp add: pool_measure_def)
next
  case close_resultChan
  then show ?thesis by (simp add: pool_measure_def)
qed


lemma pool_progress:
  assumes "pool_inv r s" and "1 \<le> workerCount r" and "\<not> resultChanClosed s"
  shows "\<exists>s'. pool_step s s'"
proof -
  from assms(1,2) have len: "0 < length (workers s)" by (simp add: pool_inv_def)
  consider
    (req) i task where "i < length (workers s)" "workers s ! i = Requesting task"
  | (snd) i result where "i < length (workers s)" "workers s ! i = Sending result"
  | (idle) "\<forall>i < length (workers s). workers s ! i = Waiting \<or> workers s ! i = Finished"
    by (metis worker.exhaust)
  then show ?thesis
  proof cases
    case req
    have "worker_result task \<lparr>URL = T_URL task, Method = T_Method task, StatusCode = 200,
       Duration = 0, Error = None, ThreadID = 0, StartTime = 0, EndTime = 0\<rparr>"
      by (rule worker_result.response)
    with req show ?thesis by (blast intro: pool_step.do_request)
  next
    case snd
    then show ?thesis by (blast intro: pool_step.collect_result)
  next
    case idle
    show ?thesis
    proof (cases "queue s")
      case (Cons task rest)
      with assms(1) have "\<not> taskChanClosed s" by (auto simp add: pool_inv_def)
      with assms(1) have "Finished \<notin> set (workers s)" by (auto simp add: pool_inv_def)
      with idle len have "workers s ! 0 = Waiting"
        by (metis nth_mem)
      with Cons len show ?thesis by (blast intro: pool_step.send_task)
    next
      case Nil
      show ?thesis
      proof (cases "taskChanClosed s")
        case False
        with Nil show ?thesis by (blast intro: pool_step.close_taskChan)
      next
        case True
        show ?thesis
        proof (cases "\<exists>i < length (workers s). workers s ! i = Waiting")
          case True
          with \<open>taskChanClosed s\<close> show ?thesis by (blast intro: pool_step.worker_done)
        next
          case False
          with idle have "list_all (\<lambda>w. w = Finished) (workers s)"
            by (auto simp add: list_all_length)
          with assms(3) show ?thesis by (blast intro: pool_step.close_resultChan)
        qed
      qed
    qed
  qed
qed

lemma pool_returns:
  assumes "1 \<le> workerCount r"
  shows "pool_inv r s \<Longrightarrow> \<exists>s'. pool_step\<^sup>*\<^sup>* s s' \<and> resultChanClosed s'"
proof (induction "pool_measure s" arbitrary: s rule: less_induct)
  case less
  show ?case
  proof (cases "resultChanClosed s")
    case True
    then show ?thesis by blast
  next
    case False
    from pool_progress [OF less.prems assms False] obtain s1 where step: "pool_step s s1" ..
    from less.hyps [OF pool_step_measure [OF step] pool_inv_step [OF step less.prems]]
    obtain s' where "pool_step\<^sup>*\<^sup>* s1 s'" and "resultChanClosed s'" by blast
    with step show ?thesis by (blast intro: converse_rtranclp_into_rtranclp)
  qed
qed

lemma sum_list_in_flight_Finished:
  "list_all (\<lambda>w. w = Finished) ws \<Longrightarrow> sum_list (map in_flight ws) = {#}"
  by (induction ws) simp_all

lemma pool_closed_collected:
  assumes "pool_inv r s" and "1 \<le> workerCount r" and "resultChanClosed s"
  shows "mset (map result_key (collected s)) = mset (map task_key (produced r))"
proof -
  from assms(1,3) have fin: "list_all (\<lambda>w. w = Finished) (workers s)"
    by (simp add: pool_inv_def)
  from assms(1,2) have "workers s \<noteq> []" by (auto simp add: pool_inv_def)
  with fin have "Finished \<in> set (workers s)"
    by (cases "workers s") simp_all
  with assms(1) have "queue s = []" by (simp add: pool_inv_def)
  with assms(1) sum_list_in_flight_Finished [OF fin] show ?thesis
    by (simp add: pool_inv_def)
qed

lemma produced_keys:
  "map task_key (produced r) =
     concat (map (\<lambda>task. replicate (nat (requestCount r)) (task_key task)) (tasks r))"
  by (simp add: produced_def map_concat comp_def)

lemma length_produced: "length (produced r) = length (tasks r) * nat (requestCount r)"
  by (simp add: produced_def length_concat comp_def sum_list_triv)

text \<open>
  C3. Take a runner with at least one worker and a non-negative repetition count, and any
  state \<open>s\<close> that a run of \<open>Run\<close> reaches. If the result channel is closed in \<open>s\<close> (\<open>Run\<close>
  returns), the Results collected are as many as tasks times repetitions, and their requests
  are, as a multiset, every task's request repeated \<open>requestCount\<close> times; this holds
  whether or not the requests succeed. As long as the result channel is open the pool can
  take a step, every step lowers \<open>pool_measure\<close>, and a state in which \<open>Run\<close> returns
  can be reached: no run blocks and no run goes on forever.
\<close>

theorem Run_returns_every_request:
  assumes "1 \<le> workerCount r" and "0 \<le> requestCount r" and "pool_reachable r s"
  shows "(resultChanClosed s \<longrightarrow>
            int (length (collected s)) = int (length (tasks r)) * requestCount r \<and>
            mset (map result_key (collected s)) =
              mset (concat (map (\<lambda>task. replicate (nat (requestCount r)) (task_key task)) (tasks r)))) \<and>
         (\<not> resultChanClosed s \<longrightarrow> (\<exists>s'. pool_step s s')) \<and>
         (\<forall>s'. pool_step s s' \<longrightarrow> pool_measure s' < pool_measure s) \<and>
         (\<exists>s'. pool_step\<^sup>*\<^sup>* s s' \<and> resultChanClosed s')"
proof -
  have inv: "pool_inv r s" using assms(3) by (rule pool_inv_reachable)
  have "int (length (collected s)) = int (length (tasks r)) * requestCount r \<and>
        mset (map result_key (collected s)) =
          mset (concat (map (\<lambda>task. replicate (nat (requestCount r)) (task_key task)) (tasks r)))"
    if closed: "resultChanClosed s"
  proof -
    have m: "mset (map result_key (collected s)) = mset (map task_key (produced r))"
      using inv assms(1) closed by (rule pool_closed_collected)
    then have "size (mset (map result_key (collected s))) = size (mset (map task_key (produced r)))"
      by simp
    then have "length (collected s) = length (tasks r) * nat (requestCount r)"
      by (simp add: length_produced)
    with assms(2) m show ?thesis by (simp add: produced_keys)
  qed
  moreover have "\<exists>s'. pool_step s s'" if "\<not> resultChanClosed s"
    using inv assms(1) that by (rule pool_progress)
  moreover have "\<exists>s'. pool_step\<^sup>*\<^sup>* s s' \<and> resultChanClosed s'"
    using assms(1) inv by (rule pool_returns)
  ultimately show ?thesis using pool_step_measure by blast
qed


text \<open>One worker, one task, one repetition: a run that returns its one Result.\<close>

lemma one_worker_run: "pool_reachable one_worker one_worker_done"
proof -
  let ?res = "success ''GET'' ''/a'' (5 * Millisecond)"
  let ?s0 = "\<lparr>queue = [sample_task], taskChanClosed = False, workers = [Waiting],
     resultChanClosed = False, collected = []\<rparr>"
  let ?s1 = "\<lparr>queue = [], taskChanClosed = False, workers = [Requesting sample_task],
     resultChanClosed = False, collected = []\<rparr>"
  let ?s2 = "\<lparr>queue = [], taskChanClosed = False, workers = [Sending ?res],
     resultChanClosed = False, collected = []\<rparr>"
  let ?s3 = "\<lparr>queue = [], taskChanClosed = False, workers = [Waiting],
     resultChanClosed = False, collected = [?res]\<rparr>"
  let ?s4 = "\<lparr>queue = [], taskChanClosed = True, workers = [Waiting],
     resultChanClosed = False, collected = [?res]\<rparr>"
  let ?s5 = "\<lparr>queue = [], taskChanClosed = True, workers = [Finished],
     resultChanClosed = False, collected = [?res]\<rparr>"
  have init: "pool_init one_worker = ?s0"
    by (simp add: pool_init_def one_worker_def produced_def)
  have 1: "pool_step ?s0 ?s1"
    using pool_step.send_task [of ?s0 sample_task "[]" 0] by simp
  have "worker_result sample_task ?res"
    using worker_result.response [of sample_task 200 "5 * Millisecond"]
    by (simp add: success_def sample_task_def)
  then have 2: "pool_step ?s1 ?s2"
    using pool_step.do_request [of 0 ?s1 sample_task ?res] by simp
  have 3: "pool_step ?s2 ?s3"
    using pool_step.collect_result [of 0 ?s2 ?res] by simp
  have 4: "pool_step ?s3 ?s4"
    using pool_step.close_taskChan [of ?s3] by simp
  have 5: "pool_step ?s4 ?s5"
    using pool_step.worker_done [of 0 ?s4] by simp
  have 6: "pool_step ?s5 one_worker_done"
    using pool_step.close_resultChan [of ?s5] by (simp add: one_worker_done_def)
  have "pool_step\<^sup>*\<^sup>* ?s0 one_worker_done"
    using 1 2 3 4 5 6 by (meson rtranclp.rtrancl_into_rtrancl rtranclp.rtrancl_refl)
  with init show ?thesis by (simp add: pool_reachable_def)
qed

theorem Run_returns_every_request_witness:
  "pool_reachable one_worker one_worker_done \<and> resultChanClosed one_worker_done \<and>
   length (collected one_worker_done) = 1 \<and>
   mset (map result_key (collected one_worker_done)) = {#(''/a'', ''GET'')#}"
proof -
  have w: "1 \<le> workerCount one_worker" and rc: "0 \<le> requestCount one_worker"
    by (simp_all add: one_worker_def)
  have closed: "resultChanClosed one_worker_done" by (simp add: one_worker_done_def)
  from Run_returns_every_request [OF w rc one_worker_run] closed
  have "int (length (collected one_worker_done)) =
          int (length (tasks one_worker)) * requestCount one_worker"
    and "mset (map result_key (collected one_worker_done)) =
          mset (concat (map (\<lambda>task. replicate (nat (requestCount one_worker)) (task_key task))
            (tasks one_worker)))"
    by simp_all
  then show ?thesis
    using one_worker_run closed
    by (simp add: one_worker_def task_key_def sample_task_def)
qed

section \<open>The degradation detector\<close>

lemma fgt_irrefl [simp]: "\<not> fgt t t"
  by (cases t) simp_all

lemma compare_step_fst:
  "map_of (Endpoints (fst (compare_step s baseline (h, d) (k0, c0)))) k =
     (case map_of (EndpointStats (Statistics baseline)) k0 of
        None \<Rightarrow> map_of (Endpoints h) k
      | Some b \<Rightarrow> if k = k0 then Some (endpoint_comparison s c0 b) else map_of (Endpoints h) k)"
  by (simp add: compare_step_def Let_def update_conv' split: option.splits)

lemma compare_step_snd:
  "snd (compare_step s baseline (h, d) (k0, c0)) =
     (d \<or> (\<exists>b. map_of (EndpointStats (Statistics baseline)) k0 = Some b \<and>
               Degradation (endpoint_comparison s c0 b)))"
  by (simp add: compare_step_def Let_def split: option.splits)

lemma compare_fold_fst:
  "distinct (map fst es) \<Longrightarrow>
   map_of (Endpoints (fst (foldl (compare_step s baseline) (h, d) es))) k =
     (case map_of es k of
        None \<Rightarrow> map_of (Endpoints h) k
      | Some c \<Rightarrow>
          (case map_of (EndpointStats (Statistics baseline)) k of
             None \<Rightarrow> map_of (Endpoints h) k
           | Some b \<Rightarrow> Some (endpoint_comparison s c b)))"
proof (induction es arbitrary: h d)
  case Nil
  then show ?case by simp
next
  case (Cons p es)
  obtain k0 c0 where p: "p = (k0, c0)" by (cases p)
  obtain h' d' where st: "compare_step s baseline (h, d) (k0, c0) = (h', d')"
    by (cases "compare_step s baseline (h, d) (k0, c0)")
  from Cons.prems p have dist: "distinct (map fst es)" and notin: "k0 \<notin> fst ` set es"
    by auto
  from notin have none: "map_of es k0 = None"
    by (simp add: map_of_eq_None_iff)
  have h': "map_of (Endpoints h') k =
     (case map_of (EndpointStats (Statistics baseline)) k0 of
        None \<Rightarrow> map_of (Endpoints h) k
      | Some b \<Rightarrow> if k = k0 then Some (endpoint_comparison s c0 b) else map_of (Endpoints h) k)"
    using compare_step_fst [of s baseline h d k0 c0 k] st by simp
  show ?case
    using Cons.IH [OF dist, of h' d'] p st h' none
    by (auto split: option.splits)
qed

lemma compare_fold_snd:
  "distinct (map fst es) \<Longrightarrow>
   snd (foldl (compare_step s baseline) (h, d) es) =
     (d \<or> (\<exists>k c b. map_of es k = Some c \<and>
                    map_of (EndpointStats (Statistics baseline)) k = Some b \<and>
                    Degradation (endpoint_comparison s c b)))"
proof (induction es arbitrary: h d)
  case Nil
  then show ?case by simp
next
  case (Cons p es)
  obtain k0 c0 where p: "p = (k0, c0)" by (cases p)
  obtain h' d' where st: "compare_step s baseline (h, d) (k0, c0) = (h', d')"
    by (cases "compare_step s baseline (h, d) (k0, c0)")
  from Cons.prems p have dist: "distinct (map fst es)" and notin: "k0 \<notin> fst ` set es"
    by auto
  from notin have none: "map_of es k0 = None"
    by (simp add: map_of_eq_None_iff)
  have d': "d' = (d \<or> (\<exists>b. map_of (EndpointStats (Statistics baseline)) k0 = Some b \<and>
               Degradation (endpoint_comparison s c0 b)))"
    using compare_step_snd [of s baseline h d k0 c0] st by simp
  have ex: "(\<exists>k c b. map_of ((k0, c0) # es) k = Some c \<and>
                    map_of (EndpointStats (Statistics baseline)) k = Some b \<and>
                    Degradation (endpoint_comparison s c b)) \<longleftrightarrow>
            (\<exists>b. map_of (EndpointStats (Statistics baseline)) k0 = Some b \<and>
               Degradation (endpoint_comparison s c0 b)) \<or>
            (\<exists>k c b. map_of es k = Some c \<and>
                    map_of (EndpointStats (Statistics baseline)) k = Some b \<and>
                    Degradation (endpoint_comparison s c b))" (is "?L \<longleftrightarrow> ?A \<or> ?B")
  proof
    assume ?L
    then obtain k c b where kc: "map_of ((k0, c0) # es) k = Some c"
      and b: "map_of (EndpointStats (Statistics baseline)) k = Some b"
      and deg: "Degradation (endpoint_comparison s c b)" by blast
    show "?A \<or> ?B"
    proof (cases "k = k0")
      case True
      with kc have "c = c0" by simp
      with True b deg show ?thesis by blast
    next
      case False
      with kc have "map_of es k = Some c" by simp
      with b deg show ?thesis by blast
    qed
  next
    assume "?A \<or> ?B"
    then show ?L
    proof
      assume ?A
      then obtain b where "map_of (EndpointStats (Statistics baseline)) k0 = Some b"
        and "Degradation (endpoint_comparison s c0 b)" by blast
      moreover have "map_of ((k0, c0) # es) k0 = Some c0" by simp
      ultimately show ?L by blast
    next
      assume ?B
      then obtain k c b where kc: "map_of es k = Some c"
        and b: "map_of (EndpointStats (Statistics baseline)) k = Some b"
        and deg: "Degradation (endpoint_comparison s c b)" by blast
      from kc none have "k \<noteq> k0" by auto
      with kc have "map_of ((k0, c0) # es) k = Some c" by simp
      with b deg show ?L by blast
    qed
  qed
  have "snd (foldl (compare_step s baseline) (h, d) (p # es)) = (d' \<or> ?B)"
    using Cons.IH [OF dist, of h' d'] p st by simp
  also have "\<dots> = (d \<or> ?L)"
    unfolding d' ex by blast
  finally show ?case unfolding p .
qed

text \<open>
  C4. For a current history whose comparison map starts empty (as \<open>SaveResults\<close> creates it)
  and whose statistics map has one entry per key: after \<open>compareWithBaseline\<close>, an endpoint
  has a comparison exactly when it is in both the current and the baseline statistics, and
  then it is the comparison of the two entries; the verdict is true exactly when some
  comparison is flagged degraded; a comparison is flagged exactly when one of its four
  changes is greater than the threshold; and changes all equal to the threshold are not a
  degradation.
\<close>

theorem compareWithBaseline_verdict:
  assumes "distinct (map fst (EndpointStats (Statistics current)))"
    and "Endpoints current = []"
  shows "(\<forall>k. map_of (Endpoints (fst (compareWithBaseline s current baseline))) k =
            (case map_of (EndpointStats (Statistics current)) k of
               None \<Rightarrow> None
             | Some c \<Rightarrow>
                 (case map_of (EndpointStats (Statistics baseline)) k of
                    None \<Rightarrow> None
                  | Some b \<Rightarrow> Some (endpoint_comparison s c b)))) \<and>
         (snd (compareWithBaseline s current baseline) \<longleftrightarrow>
            (\<exists>k cmp. map_of (Endpoints (fst (compareWithBaseline s current baseline))) k = Some cmp \<and>
                     Degradation cmp)) \<and>
         (\<forall>c b. Degradation (endpoint_comparison s c b) \<longleftrightarrow>
            fgt (LatencyIncrease (endpoint_changes c b)) (thresholdPct s) \<or>
            fgt (ErrorRateIncrease (endpoint_changes c b)) (thresholdPct s) \<or>
            fgt (ThroughputDecrease (endpoint_changes c b)) (thresholdPct s) \<or>
            fgt (SuccessRateDecrease (endpoint_changes c b)) (thresholdPct s)) \<and>
         \<not> isDegraded s \<lparr>LatencyIncrease = thresholdPct s, ErrorRateIncrease = thresholdPct s,
             ThroughputDecrease = thresholdPct s, SuccessRateDecrease = thresholdPct s\<rparr>"
proof -
  let ?cur = "EndpointStats (Statistics current)"
  let ?base = "EndpointStats (Statistics baseline)"
  let ?out = "compareWithBaseline s current baseline"
  have lookup: "map_of (Endpoints (fst ?out)) k =
            (case map_of ?cur k of
               None \<Rightarrow> None
             | Some c \<Rightarrow>
                 (case map_of ?base k of
                    None \<Rightarrow> None
                  | Some b \<Rightarrow> Some (endpoint_comparison s c b)))" for k
    unfolding compareWithBaseline_def
    using compare_fold_fst [OF assms(1), of s baseline current False k] assms(2)
    by (simp split: option.splits)
  have verdict: "snd ?out \<longleftrightarrow>
      (\<exists>k c b. map_of ?cur k = Some c \<and> map_of ?base k = Some b \<and>
                Degradation (endpoint_comparison s c b))"
    unfolding compareWithBaseline_def
    using compare_fold_snd [OF assms(1), of s baseline current False] by simp
  have "snd ?out \<longleftrightarrow> (\<exists>k cmp. map_of (Endpoints (fst ?out)) k = Some cmp \<and> Degradation cmp)"
  proof
    assume "snd ?out"
    with verdict obtain k c b where "map_of ?cur k = Some c" and "map_of ?base k = Some b"
      and deg: "Degradation (endpoint_comparison s c b)" by blast
    then have "map_of (Endpoints (fst ?out)) k = Some (endpoint_comparison s c b)"
      by (simp add: lookup)
    with deg show "\<exists>k cmp. map_of (Endpoints (fst ?out)) k = Some cmp \<and> Degradation cmp"
      by blast
  next
    assume "\<exists>k cmp. map_of (Endpoints (fst ?out)) k = Some cmp \<and> Degradation cmp"
    then obtain k cmp where k: "map_of (Endpoints (fst ?out)) k = Some cmp"
      and deg: "Degradation cmp" by blast
    from k obtain c b where "map_of ?cur k = Some c" and "map_of ?base k = Some b"
      and "cmp = endpoint_comparison s c b"
      unfolding lookup by (auto split: option.splits)
    with deg verdict show "snd ?out" by blast
  qed
  moreover have "Degradation (endpoint_comparison s c b) \<longleftrightarrow>
            fgt (LatencyIncrease (endpoint_changes c b)) (thresholdPct s) \<or>
            fgt (ErrorRateIncrease (endpoint_changes c b)) (thresholdPct s) \<or>
            fgt (ThroughputDecrease (endpoint_changes c b)) (thresholdPct s) \<or>
            fgt (SuccessRateDecrease (endpoint_changes c b)) (thresholdPct s)" for c b
    by (simp add: endpoint_comparison_def Let_def isDegraded_def)
  moreover have "\<not> isDegraded s \<lparr>LatencyIncrease = thresholdPct s, ErrorRateIncrease = thresholdPct s,
             ThroughputDecrease = thresholdPct s, SuccessRateDecrease = thresholdPct s\<rparr>"
    by (simp add: isDegraded_def)
  ultimately show ?thesis using lookup by blast
qed

text \<open>
  The two sample runs at the threshold 10: \<open>GET /a\<close>, exactly 10 percent slower, is not
  flagged; \<open>GET /b\<close> is flagged and makes the verdict true; \<open>GET /new\<close> and \<open>GET /old\<close>
  have no comparison.
\<close>

theorem compareWithBaseline_verdict_witness:
  "snd (compareWithBaseline sample_store (history_of ''2'' current_results)
          (history_of ''1'' baseline_results)) \<and>
   (case map_of (Endpoints (fst (compareWithBaseline sample_store
            (history_of ''2'' current_results) (history_of ''1'' baseline_results)))) ''GET /a'' of
      None \<Rightarrow> False
    | Some cmp \<Rightarrow> \<not> Degradation cmp \<and> LatencyIncrease (Changes cmp) = Fin 10) \<and>
   (case map_of (Endpoints (fst (compareWithBaseline sample_store
            (history_of ''2'' current_results) (history_of ''1'' baseline_results)))) ''GET /b'' of
      None \<Rightarrow> False
    | Some cmp \<Rightarrow> Degradation cmp \<and> LatencyIncrease (Changes cmp) = Fin 21) \<and>
   map_of (Endpoints (fst (compareWithBaseline sample_store
            (history_of ''2'' current_results) (history_of ''1'' baseline_results)))) ''GET /new'' = None \<and>
   map_of (Endpoints (fst (compareWithBaseline sample_store
            (history_of ''2'' current_results) (history_of ''1'' baseline_results)))) ''GET /old'' = None"
proof -
  let ?cur = "history_of ''2'' current_results"
  let ?base = "history_of ''1'' baseline_results"
  let ?out = "compareWithBaseline sample_store ?cur ?base"
  have d: "distinct (map fst (EndpointStats (Statistics ?cur)))"
    by code_simp
  have e: "Endpoints ?cur = []"
    by (simp add: history_of_def)
  have "map (\<lambda>entry. (fst entry, Degradation (snd entry), LatencyIncrease (Changes (snd entry))))
          (Endpoints (fst ?out))
        = [(''GET /a'', False, Fin 10), (''GET /b'', True, Fin 21)]"
    by code_simp
  then obtain ca cb where entries: "Endpoints (fst ?out) = [(''GET /a'', ca), (''GET /b'', cb)]"
    and ca: "\<not> Degradation ca" "LatencyIncrease (Changes ca) = Fin 10"
    and cb: "Degradation cb" "LatencyIncrease (Changes cb) = Fin 21"
    by (auto simp add: map_eq_Cons_conv)
  from entries cb(1) have "\<exists>k cmp. map_of (Endpoints (fst ?out)) k = Some cmp \<and> Degradation cmp"
    by (intro exI [of _ "''GET /b''"] exI [of _ cb]) simp
  with compareWithBaseline_verdict [OF d e, of sample_store ?base] have "snd ?out"
    by blast
  with entries ca cb show ?thesis by simp
qed

text \<open>
  C9. The percentage change is zero whenever the baseline value is zero, in the detector
  and in the utilities; a decrease is the negated increase; for a non-zero baseline the
  increase is \<open>((current - previous) / previous) * 100\<close> in float64 arithmetic; and the two
  decrease metrics of a comparison are the negated increases of the requests per second and
  of the success rate.
\<close>

theorem percentage_change:
  "percentageIncrease x (Fin 0) = Fin 0 \<and>
   CalculatePercentageChange x (Fin 0) = Fin 0 \<and>
   percentageDecrease x (Fin 0) = Fin 0 \<and>
   percentageDecrease current previous = fneg (percentageIncrease current previous) \<and>
   (previous \<noteq> Fin 0 \<longrightarrow>
      percentageIncrease current previous = fmul (fdiv (fsub current previous) previous) (Fin 100) \<and>
      CalculatePercentageChange current previous = percentageIncrease current previous) \<and>
   ThroughputDecrease (endpoint_changes c b) =
     fneg (percentageIncrease (RequestsPerSecond c) (RequestsPerSecond b)) \<and>
   SuccessRateDecrease (endpoint_changes c b) =
     fneg (percentageIncrease (successRate c) (successRate b))"
proof -
  have "percentageIncrease x (Fin 0) = Fin 0" "CalculatePercentageChange x (Fin 0) = Fin 0"
    by (simp_all add: percentageIncrease_def CalculatePercentageChange_def)
  moreover have "percentageDecrease x (Fin 0) = Fin 0"
    by (simp add: percentageIncrease_def percentageDecrease_def)
  moreover have "percentageDecrease current previous = fneg (percentageIncrease current previous)"
    by (simp add: percentageDecrease_def)
  moreover have "previous \<noteq> Fin 0 \<longrightarrow>
      percentageIncrease current previous = fmul (fdiv (fsub current previous) previous) (Fin 100) \<and>
      CalculatePercentageChange current previous = percentageIncrease current previous"
    by (simp add: percentageIncrease_def CalculatePercentageChange_def)
  moreover have "ThroughputDecrease (endpoint_changes c b) =
     fneg (percentageIncrease (RequestsPerSecond c) (RequestsPerSecond b))"
    "SuccessRateDecrease (endpoint_changes c b) =
     fneg (percentageIncrease (successRate c) (successRate b))"
    by (simp_all add: percentageDecrease_def endpoint_changes_def)
  ultimately show ?thesis by blast
qed

text \<open>From 100 to 90 is a decrease of 10 percent; from 0 to 5 is no change.\<close>

theorem percentage_change_witness:
  "percentageIncrease (Fin 5) (Fin 0) = Fin 0 \<and>
   percentageIncrease (Fin 90) (Fin 100) = Fin (- 10) \<and>
   percentageDecrease (Fin 90) (Fin 100) = Fin 10 \<and>
   Fin 100 \<noteq> Fin 0"
proof -
  have inc: "fmul (fdiv (fsub (Fin 90) (Fin 100)) (Fin 100)) (Fin 100) = Fin (- 10)"
    by code_simp
  have ne: "Fin 100 \<noteq> Fin 0"
    by simp
  from percentage_change [of "Fin 5" "Fin 90" "Fin 100" "new_endpoint (failure [] [])"
      "new_endpoint (failure [] [])"] ne inc
  show ?thesis by simp
qed

section \<open>The data-volume ramp\<close>

lemma grow_by_5:
  "f64_to_int (fmul (f64_of_int 1000) (Fin 5)) = 5000"
  "f64_to_int (fmul (f64_of_int 5000) (Fin 5)) = 25000"
  "f64_to_int (fmul (f64_of_int 25000) (Fin 5)) = 125000"
  "f64_to_int (fmul (f64_of_int 125000) (Fin 5)) = 625000"
  by code_simp+

lemma request_counts:
  "calculateRequestCount 1000 = 50" "calculateRequestCount 5000 = 50"
  "calculateRequestCount 25000 = 20" "calculateRequestCount 125000 = 10"
  by (simp_all add: calculateRequestCount_def)

text \<open>
  C6, as the code has it. With an initial size of 1000, the multiplier 5, four steps and a
  maximal size of at least 125000, the ramp runs four steps at the sizes 1000, 5000, 25000
  and 125000, and the pool runs with 50, 50, 20 and 10 requests per task: the bands are
  strict, so the size 1000 is in the band below 10000.
\<close>

theorem data_ramp_steps:
  assumes "InitialDataSize config = 1000" and "DataSizeMultiplier config = Fin 5"
    and "StepsCount config = 4" and "125000 \<le> MaxDataSize config"
  shows "RunDataLoadTest run r config =
     [\<lparr>UserCount = 0, DataSize = 1000, Results = run 0 (r\<lparr>requestCount := 50\<rparr>), StepNumber = 0\<rparr>,
      \<lparr>UserCount = 0, DataSize = 5000, Results = run 1 (r\<lparr>requestCount := 50\<rparr>), StepNumber = 0\<rparr>,
      \<lparr>UserCount = 0, DataSize = 25000, Results = run 2 (r\<lparr>requestCount := 20\<rparr>), StepNumber = 0\<rparr>,
      \<lparr>UserCount = 0, DataSize = 125000, Results = run 3 (r\<lparr>requestCount := 10\<rparr>), StepNumber = 0\<rparr>]"
  unfolding RunDataLoadTest_def
  apply (subst data_load_loop.simps)
  apply (subst data_load_loop.simps)
  apply (subst data_load_loop.simps)
  apply (subst data_load_loop.simps)
  apply (subst data_load_loop.simps)
  using assms
  apply (simp add: Let_def grow_by_5 request_counts)
  done

text \<open>The scenario with a pool that answers every request.\<close>

theorem data_ramp_steps_witness:
  "map DataSize (RunDataLoadTest echo_run sample_runner sample_data_config)
     = [1000, 5000, 25000, 125000] \<and>
   map (\<lambda>step. int (length (Results step))) (RunDataLoadTest echo_run sample_runner sample_data_config)
     = [50, 50, 20, 10]"
proof -
  have "InitialDataSize sample_data_config = 1000" "DataSizeMultiplier sample_data_config = Fin 5"
    "StepsCount sample_data_config = 4" "125000 \<le> MaxDataSize sample_data_config"
    by (simp_all add: sample_data_config_def)
  from data_ramp_steps [OF this, of echo_run sample_runner] show ?thesis
    by (simp add: echo_run_def sample_runner_def)
qed

text \<open>C6 as stated fails: the step at size 1000 runs 50 requests, not 100.\<close>

theorem data_ramp_steps_counterexample:
  "calculateRequestCount 1000 \<noteq> 100 \<and>
   map (\<lambda>step. int (length (Results step))) (RunDataLoadTest echo_run sample_runner sample_data_config)
     \<noteq> [100, 50, 20, 10]"
  by code_simp

section \<open>The user-load ramp\<close>

lemma wrap64_id: "- (2 ^ 63) \<le> x \<Longrightarrow> x < 2 ^ 63 \<Longrightarrow> wrap64 x = x"
  by (simp add: wrap64_def)



text \<open>The panic of a virtual user in the first step is the outcome of the whole ramp.\<close>

lemma user_load_first_step_panics:
  assumes "StepUsers config \<noteq> 0" and "StartUsers config \<le> MaxUsers config"
    and "0 \<le> StartUsers config * int (length (tasks r))"
    and "StartUsers config * int (length (tasks r)) \<le> chanLimit" and "chanLimit < 2 ^ 63"
    and "step_body 0 (StartUsers config) = Inl p"
  shows "RunUserLoadTest chanLimit step_body r config = Some (Inl p)"
proof -
  have "wrap64 (StartUsers config * int (length (tasks r)))
          = StartUsers config * int (length (tasks r))"
    using assms(3,4,5) by (intro wrap64_id) linarith+
  with assms show ?thesis
    unfolding RunUserLoadTest_def
    by (subst user_load_loop.simps) (simp add: Let_def)
qed




end
